theory Spec2Isabelle
  imports Complex_Main
begin

section \<open>The n-Chain environment of gym/envs/toy_text/nchain.py\<close>

text \<open>
  The class \<open>NChainEnv\<close> is a record of its attributes; every method takes the
  environment and returns its result together with the environment it leaves behind.
  Python's unbounded integers are \<open>int\<close>. The slip probability, the rewards and the
  value drawn by \<open>rand()\<close> are numbers that the methods only compare, copy and (in the
  table) subtract from one: they are modelled as \<open>real\<close>, the floats read as the exact
  numbers they stand for.
\<close>

subsection \<open>Data\<close>

text \<open>A failed \<open>assert\<close> raises \<open>AssertionError\<close>; the methods raise nothing else.\<close>

datatype error = AssertionError

datatype space = Discrete int

text \<open>
  An entry of the table \<open>P\<close> is the tuple \<open>(probability, next_state, reward, None)\<close>;
  the fourth component is always \<open>None\<close>.
\<close>

type_synonym outcome = "real \<times> int \<times> real \<times> unit option"

text \<open>The fourth value \<open>step\<close> returns is a dictionary, always the empty one.\<close>

type_synonym info = "string \<rightharpoonup> string"

type_synonym step_result = "int \<times> real \<times> bool \<times> info"

record 'g NChainEnv =
  n :: int
  slip :: real
  small :: real
  large :: real
  state :: int
  action_space :: space
  observation_space :: space
  iters :: int
  max_iters :: int
  P :: "int \<rightharpoonup> (int \<rightharpoonup> outcome list)"
  np_random :: 'g

subsection \<open>What the class uses of the rest of gym and of numpy\<close>

text \<open>
  Modelled from the spec: \<open>gym.spaces.Discrete.contains\<close> is not among the sources.
  The action space is "discrete, values {0,1}" and the observation space "discrete,
  values 0..chainLength-1": \<open>Discrete k\<close> contains the integers from 0 up to k - 1.
\<close>

fun contains :: "space \<Rightarrow> int \<Rightarrow> bool" where
  "contains (Discrete k) x = (0 \<le> x \<and> x < k)"

text \<open>
  Modelled from the spec: \<open>gym.utils.seeding.np_random\<close> is not among the sources.
  It "(re)initializes randomSource deterministically from optionalSeedValue if provided,
  otherwise from an implementation-chosen entropy source" and gives back the generator
  with "the seed value actually used". The function \<open>mk\<close> from a seed value to the
  generator and the seed used is a parameter, and so is \<open>entropy\<close>, the value the
  entropy source gives when no seed is passed.
\<close>

definition seeding_np_random :: "(int \<Rightarrow> 'g \<times> int) \<Rightarrow> int \<Rightarrow> int option \<Rightarrow> 'g \<times> int" where
  "seeding_np_random mk entropy sd = mk (case sd of None \<Rightarrow> entropy | Some v \<Rightarrow> v)"

text \<open>
  The generator itself (numpy's \<open>RandomState\<close>) is a value of any type \<open>'g\<close>;
  \<open>self.np_random.rand()\<close> is a parameter \<open>rand\<close> of \<open>step\<close>, a function from the
  generator to the number drawn and the generator after the draw.
\<close>

subsection \<open>Construction\<close>

text \<open>\<open>range(k)\<close>: the integers 0, ..., k - 1 in order, none when k is not positive.\<close>

definition py_range :: "int \<Rightarrow> int list" where
  "py_range k = [0..k - 1]"

text \<open>
  The body of the inner loop of \<open>__init__\<close>, for one state and one action: the list
  \<open>res\<close> it appends \<open>t1\<close> and \<open>t2\<close> to.
\<close>

definition transitions :: "int \<Rightarrow> real \<Rightarrow> real \<Rightarrow> real \<Rightarrow> int \<Rightarrow> int \<Rightarrow> outcome list" where
  "transitions len sl sm lg st action =
     (let f_reward = (if st = len - 1 then lg else 0);
          next_state = (if st = len - 1 then st else st + 1)
      in if action = 0
         then (let t1 = (1 - sl, next_state, f_reward, None);
                   t2 = (sl, 0, sm, None)
               in [] @ [t1] @ [t2])
         else (let t1 = (1 - sl, 0, sm, None);
                   t2 = (sl, next_state, f_reward, None)
               in [] @ [t1] @ [t2]))"

text \<open>
  The dictionary comprehension \<open>{s: {a: [] for a in range(2)} for s in range(n)}\<close>.
\<close>

definition empty_P :: "int \<Rightarrow> (int \<rightharpoonup> (int \<rightharpoonup> outcome list))" where
  "empty_P len =
     map_of (map (\<lambda>s. (s, map_of (map (\<lambda>a. (a, [])) (py_range 2)))) (py_range len))"

text \<open>
  The inner loop builds the dictionary \<open>d\<close> of one state, over the keys of
  \<open>self.P[state]\<close>, which are \<open>range(2)\<close>; the outer loop stores it at each key of
  \<open>self.P\<close>, which are \<open>range(n)\<close>.
\<close>

definition build_d :: "int \<Rightarrow> real \<Rightarrow> real \<Rightarrow> real \<Rightarrow> int \<Rightarrow> (int \<rightharpoonup> outcome list)" where
  "build_d len sl sm lg st =
     fold (\<lambda>action d. d(action \<mapsto> transitions len sl sm lg st action)) (py_range 2) Map.empty"

definition build_P :: "int \<Rightarrow> real \<Rightarrow> real \<Rightarrow> real \<Rightarrow> (int \<rightharpoonup> (int \<rightharpoonup> outcome list))" where
  "build_P len sl sm lg =
     fold (\<lambda>st tab. tab(st \<mapsto> build_d len sl sm lg st)) (py_range len) (empty_P len)"

text \<open>
  \<open>__init__(n, slip, small, large, max_iters)\<close>. Its last statement \<open>self.seed()\<close>
  passes no seed, so the generator comes from the entropy source.
\<close>

definition init ::
  "(int \<Rightarrow> 'g \<times> int) \<Rightarrow> int \<Rightarrow> int \<Rightarrow> real \<Rightarrow> real \<Rightarrow> real \<Rightarrow> int \<Rightarrow> 'g NChainEnv" where
  "init mk entropy len sl sm lg mx =
     \<lparr> n = len, slip = sl, small = sm, large = lg, state = 0,
       action_space = Discrete 2, observation_space = Discrete len,
       iters = 0, max_iters = mx, P = build_P len sl sm lg,
       np_random = fst (seeding_np_random mk entropy None) \<rparr>"

subsection \<open>The methods\<close>

definition seed ::
  "(int \<Rightarrow> 'g \<times> int) \<Rightarrow> int \<Rightarrow> 'g NChainEnv \<Rightarrow> int option \<Rightarrow> int list \<times> 'g NChainEnv" where
  "seed mk entropy env sd =
     (let (g, s) = seeding_np_random mk entropy sd
      in ([s], env\<lparr>np_random := g\<rparr>))"

text \<open>
  \<open>step\<close>: the assertion comes first and leaves the environment as it was. After
  \<open>action = not action\<close> the action is a Boolean; \<open>backwards\<close> is the truth value
  that \<open>if action:\<close> tests, true for every integer but 0.
\<close>

definition step ::
  "('g \<Rightarrow> real \<times> 'g) \<Rightarrow> 'g NChainEnv \<Rightarrow> int \<Rightarrow> (error + step_result) \<times> 'g NChainEnv" where
  "step rand env action =
     (if \<not> contains (action_space env) action then (Inl AssertionError, env)
      else
        let (u, g) = rand (np_random env);
            env1 = env\<lparr>np_random := g\<rparr>;
            backwards = (if u < slip env1 then \<not> (action \<noteq> 0) else action \<noteq> 0);
            (reward, env2) =
              (if backwards then (small env1, env1\<lparr>state := 0\<rparr>)
               else if state env1 < n env1 - 1 then (0, env1\<lparr>state := state env1 + 1\<rparr>)
               else (large env1, env1));
            env3 = env2\<lparr>iters := iters env2 + 1\<rparr>;
            (done, env4) =
              (if iters env3 = max_iters env3 then (True, env3\<lparr>iters := 0\<rparr>)
               else (False, env3))
        in (Inr (state env4, reward, done, Map.empty), env4))"

definition reset :: "'g NChainEnv \<Rightarrow> int \<times> 'g NChainEnv" where
  "reset env = (let env1 = env\<lparr>state := 0\<rparr> in (state env1, env1))"

subsection \<open>Sequences of calls\<close>

text \<open>
  A caller's calls on one environment, in order, and what each returns. A call of
  \<open>seed\<close> carries the value the entropy source would give. A \<open>step\<close> that raises
  leaves the environment to the calls after it, for a caller that catches the error;
  a caller that does not sees a prefix of the sequence.
\<close>

datatype call = Step int | Reset | Seed "int option" int

datatype returned = StepOut "error + step_result" | ResetOut int | SeedOut "int list"

fun exec_call ::
  "('g \<Rightarrow> real \<times> 'g) \<Rightarrow> (int \<Rightarrow> 'g \<times> int) \<Rightarrow> 'g NChainEnv \<Rightarrow> call \<Rightarrow> returned \<times> 'g NChainEnv" where
  "exec_call rand mk env (Step a) = (let (r, env1) = step rand env a in (StepOut r, env1))"
| "exec_call rand mk env Reset = (let (ob, env1) = reset env in (ResetOut ob, env1))"
| "exec_call rand mk env (Seed sd entropy) =
     (let (l, env1) = seed mk entropy env sd in (SeedOut l, env1))"

fun run ::
  "('g \<Rightarrow> real \<times> 'g) \<Rightarrow> (int \<Rightarrow> 'g \<times> int) \<Rightarrow> 'g NChainEnv \<Rightarrow> call list \<Rightarrow> returned list \<times> 'g NChainEnv" where
  "run rand mk env [] = ([], env)"
| "run rand mk env (c # cs) =
     (let (out, env1) = exec_call rand mk env c;
          (outs, env2) = run rand mk env1 cs
      in (out # outs, env2))"

subsection \<open>The table and \<open>step\<close> as distributions\<close>

text \<open>
  What the table says about a state and an action: the probability it gives to a pair
  of next state and reward is the sum of the probabilities of the outcomes in the list
  that carry this pair.
\<close>

definition table_mass :: "outcome list \<Rightarrow> int \<times> real \<Rightarrow> real" where
  "table_mass outs oc = sum_list (map (\<lambda>(p, ns, r, d). if (ns, r) = oc then p else 0) outs)"

text \<open>
  What \<open>step\<close> does: the pair of observation and reward it returns when \<open>rand()\<close>
  draws \<open>u\<close>.
\<close>

definition step_outcome :: "'g NChainEnv \<Rightarrow> int \<Rightarrow> real \<Rightarrow> (int \<times> real) option" where
  "step_outcome env a u =
     (case fst (step (\<lambda>g. (u, g)) env a) of
        Inl err \<Rightarrow> None
      | Inr (ob, r, d, nfo) \<Rightarrow> Some (ob, r))"

text \<open>
  The probability that \<open>step\<close> returns a given pair, for a law \<open>prob\<close> of the draw
  that gives every event (a set of draws, as a predicate) its probability.
\<close>

definition step_mass :: "((real \<Rightarrow> bool) \<Rightarrow> real) \<Rightarrow> 'g NChainEnv \<Rightarrow> int \<Rightarrow> int \<times> real \<Rightarrow> real" where
  "step_mass prob env a oc = prob (\<lambda>u. step_outcome env a u = Some oc)"

section \<open>Properties\<close>

subsection \<open>One call of \<open>step\<close>\<close>

text \<open>
  A call whose action the action space contains, with the draw \<open>u\<close> and the generator
  \<open>g\<close> that \<open>rand()\<close> gives: the result and the environment afterwards, in closed
  form. \<open>back\<close> is the truth value of the action that is carried out.
\<close>

lemma step_valid:
  assumes "contains (action_space e) a" and "rand (np_random e) = (u, g)"
  shows "step rand e a =
     (let back = (if u < slip e then a = 0 else a \<noteq> 0);
          st' = (if back then 0 else if state e < n e - 1 then state e + 1 else state e);
          rw = (if back then small e else if state e < n e - 1 then 0 else large e);
          dn = (iters e + 1 = max_iters e)
      in (Inr (st', rw, dn, Map.empty),
          e\<lparr>state := st', iters := (if dn then 0 else iters e + 1), np_random := g\<rparr>))"
  using assms by (simp add: step_def Let_def)

lemma step_invalid: "\<not> contains (action_space e) a \<Longrightarrow> step rand e a = (Inl AssertionError, e)"
  by (simp add: step_def)

text \<open>No method changes the configuration, the spaces or the table.\<close>

lemma step_config:
  "n (snd (step rand e a)) = n e \<and> slip (snd (step rand e a)) = slip e \<and>
   small (snd (step rand e a)) = small e \<and> large (snd (step rand e a)) = large e \<and>
   max_iters (snd (step rand e a)) = max_iters e \<and>
   action_space (snd (step rand e a)) = action_space e \<and>
   observation_space (snd (step rand e a)) = observation_space e \<and>
   P (snd (step rand e a)) = P e"
proof (cases "contains (action_space e) a")
  case False
  then show ?thesis by (simp add: step_invalid)
next
  case True
  obtain u g where "rand (np_random e) = (u, g)" by (cases "rand (np_random e)")
  with True show ?thesis by (simp add: step_valid Let_def)
qed

lemma exec_call_config:
  "n (snd (exec_call rand mk e c)) = n e \<and> slip (snd (exec_call rand mk e c)) = slip e \<and>
   small (snd (exec_call rand mk e c)) = small e \<and> large (snd (exec_call rand mk e c)) = large e \<and>
   max_iters (snd (exec_call rand mk e c)) = max_iters e \<and>
   action_space (snd (exec_call rand mk e c)) = action_space e \<and>
   observation_space (snd (exec_call rand mk e c)) = observation_space e \<and>
   P (snd (exec_call rand mk e c)) = P e"
proof (cases c)
  case (Step a)
  then show ?thesis using step_config [of rand e a] by (simp add: split_beta)
next
  case Reset
  then show ?thesis by (simp add: reset_def Let_def)
next
  case (Seed sd en)
  then show ?thesis by (simp add: seed_def split_beta)
qed

lemma run_Cons: "snd (run rand mk e (c # cs)) = snd (run rand mk (snd (exec_call rand mk e c)) cs)"
  by (simp add: split_beta)

lemma run_config:
  "n (snd (run rand mk e cs)) = n e \<and> slip (snd (run rand mk e cs)) = slip e \<and>
   small (snd (run rand mk e cs)) = small e \<and> large (snd (run rand mk e cs)) = large e \<and>
   max_iters (snd (run rand mk e cs)) = max_iters e \<and>
   action_space (snd (run rand mk e cs)) = action_space e \<and>
   observation_space (snd (run rand mk e cs)) = observation_space e \<and>
   P (snd (run rand mk e cs)) = P e"
proof (induction cs arbitrary: e)
  case Nil
  show ?case by simp
next
  case (Cons c cs)
  show ?case
    unfolding run_Cons using Cons.IH [of "snd (exec_call rand mk e c)"] exec_call_config [of rand mk e c]
    by simp
qed

lemma step_state_bounds:
  assumes "0 \<le> state e" and "state e < n e"
  shows "0 \<le> state (snd (step rand e a)) \<and> state (snd (step rand e a)) < n e"
proof (cases "contains (action_space e) a")
  case False
  with assms show ?thesis by (simp add: step_invalid)
next
  case True
  obtain u g where "rand (np_random e) = (u, g)" by (cases "rand (np_random e)")
  with True assms show ?thesis by (simp add: step_valid Let_def)
qed

lemma exec_call_state_bounds:
  assumes "0 \<le> state e" and "state e < n e"
  shows "0 \<le> state (snd (exec_call rand mk e c)) \<and> state (snd (exec_call rand mk e c)) < n e"
proof (cases c)
  case (Step a)
  then show ?thesis using step_state_bounds [OF assms, of rand a] by (simp add: split_beta)
next
  case Reset
  with assms show ?thesis by (simp add: reset_def Let_def)
next
  case (Seed sd en)
  with assms show ?thesis by (simp add: seed_def split_beta)
qed

lemma run_state_bounds:
  "0 \<le> state e \<Longrightarrow> state e < n e \<Longrightarrow>
   0 \<le> state (snd (run rand mk e cs)) \<and> state (snd (run rand mk e cs)) < n e"
proof (induction cs arbitrary: e)
  case Nil
  then show ?case by simp
next
  case (Cons c cs)
  have b: "0 \<le> state (snd (exec_call rand mk e c))" "state (snd (exec_call rand mk e c)) < n e"
    using exec_call_state_bounds [OF Cons.prems, of rand mk c] by simp_all
  have c: "n (snd (exec_call rand mk e c)) = n e"
    using exec_call_config [of rand mk e c] by simp
  show ?case
    unfolding run_Cons using Cons.IH [of "snd (exec_call rand mk e c)"] b c by simp
qed

lemma step_iters_bounds:
  assumes "0 \<le> iters e" and "iters e < max_iters e"
  shows "0 \<le> iters (snd (step rand e a)) \<and> iters (snd (step rand e a)) < max_iters e"
proof (cases "contains (action_space e) a")
  case False
  with assms show ?thesis by (simp add: step_invalid)
next
  case True
  obtain u g where "rand (np_random e) = (u, g)" by (cases "rand (np_random e)")
  with True assms show ?thesis by (simp add: step_valid Let_def)
qed

lemma exec_call_iters_bounds:
  assumes "0 \<le> iters e" and "iters e < max_iters e"
  shows "0 \<le> iters (snd (exec_call rand mk e c)) \<and> iters (snd (exec_call rand mk e c)) < max_iters e"
proof (cases c)
  case (Step a)
  then show ?thesis using step_iters_bounds [OF assms, of rand a] by (simp add: split_beta)
next
  case Reset
  with assms show ?thesis by (simp add: reset_def Let_def)
next
  case (Seed sd en)
  with assms show ?thesis by (simp add: seed_def split_beta)
qed

lemma run_iters_bounds:
  "0 \<le> iters e \<Longrightarrow> iters e < max_iters e \<Longrightarrow>
   0 \<le> iters (snd (run rand mk e cs)) \<and> iters (snd (run rand mk e cs)) < max_iters e"
proof (induction cs arbitrary: e)
  case Nil
  then show ?case by simp
next
  case (Cons c cs)
  have b: "0 \<le> iters (snd (exec_call rand mk e c))"
    "iters (snd (exec_call rand mk e c)) < max_iters e"
    using exec_call_iters_bounds [OF Cons.prems, of rand mk c] by simp_all
  have c: "max_iters (snd (exec_call rand mk e c)) = max_iters e"
    using exec_call_config [of rand mk e c] by simp
  show ?case
    unfolding run_Cons using Cons.IH [of "snd (exec_call rand mk e c)"] b c by simp
qed

subsection \<open>The table\<close>

text \<open>A loop that stores \<open>f k\<close> at every key \<open>k\<close> of a list, as a function.\<close>

lemma fold_upd:
  "fold (\<lambda>k m. m(k \<mapsto> f k)) ks m0 = (\<lambda>k. if k \<in> set ks then Some (f k) else m0 k)"
  by (induction ks arbitrary: m0) (auto simp: fun_eq_iff)

lemma build_d_apply:
  "build_d len sl sm lg st a = (if a = 0 \<or> a = 1 then Some (transitions len sl sm lg st a) else None)"
  by (auto simp: build_d_def fold_upd py_range_def)

lemma build_P_apply:
  "0 \<le> s \<Longrightarrow> s < len \<Longrightarrow> build_P len sl sm lg s = Some (build_d len sl sm lg s)"
  by (simp add: build_P_def fold_upd py_range_def)

text \<open>The two outcomes \<open>t1\<close> and \<open>t2\<close> of a state and an action.\<close>

lemma transitions_eq:
  "transitions len sl sm lg s a =
     (if a = 0
      then [(1 - sl, if s = len - 1 then s else s + 1, if s = len - 1 then lg else 0, None),
            (sl, 0, sm, None)]
      else [(1 - sl, 0, sm, None),
            (sl, if s = len - 1 then s else s + 1, if s = len - 1 then lg else 0, None)])"
  by (simp add: transitions_def Let_def)

subsection \<open>Draws\<close>

text \<open>
  The probability that a function with the value \<open>x\<close> on the draws below \<open>sl\<close> and
  \<open>y\<close> on the others takes a given value.
\<close>

lemma prob_two_valued:
  assumes "prob (\<lambda>u. u < sl) = sl" and "prob (\<lambda>u. \<not> u < sl) = 1 - sl"
    and "prob (\<lambda>u. True) = 1" and "prob (\<lambda>u. False) = 0"
  shows "prob (\<lambda>u::real. (if u < sl then x else y) = oc) =
           (if y = oc then 1 - sl else 0) + (if x = oc then sl else (0::real))"
proof -
  consider "x = oc" "y = oc" | "x = oc" "y \<noteq> oc" | "x \<noteq> oc" "y = oc" | "x \<noteq> oc" "y \<noteq> oc"
    by blast
  then show ?thesis
  proof cases
    case 1
    then have "(\<lambda>u::real. (if u < sl then x else y) = oc) = (\<lambda>u. True)" by auto
    with 1 assms(3) show ?thesis by simp
  next
    case 2
    then have "(\<lambda>u::real. (if u < sl then x else y) = oc) = (\<lambda>u. u < sl)" by auto
    with 2 assms(1) show ?thesis by simp
  next
    case 3
    then have "(\<lambda>u::real. (if u < sl then x else y) = oc) = (\<lambda>u. \<not> u < sl)" by auto
    with 3 assms(2) show ?thesis by simp
  next
    case 4
    then have "(\<lambda>u::real. (if u < sl then x else y) = oc) = (\<lambda>u. False)" by auto
    with 4 assms(4) show ?thesis by simp
  qed
qed

text \<open>The pair \<open>step\<close> returns for a draw, when the action is valid.\<close>

lemma step_outcome_eq:
  assumes "action_space e = Discrete 2" and "a = 0 \<or> a = 1"
  shows "step_outcome e a u =
     Some (if u < slip e
           then (if a = 0 then (0, small e)
                 else (if state e < n e - 1 then state e + 1 else state e,
                       if state e < n e - 1 then 0 else large e))
           else (if a = 0 then (if state e < n e - 1 then state e + 1 else state e,
                       if state e < n e - 1 then 0 else large e)
                 else (0, small e)))"
  using assms by (auto simp: step_outcome_def step_def Let_def)

text \<open>A valid call when \<open>slip\<close> is 0 and the draw is not negative: the agent never slips.\<close>

lemma step_noslip:
  assumes "contains (action_space e) a" and "slip e = 0" and "0 \<le> fst (rand (np_random e))"
  shows "step rand e a =
     (let st' = (if a \<noteq> 0 then 0 else if state e < n e - 1 then state e + 1 else state e);
          rw = (if a \<noteq> 0 then small e else if state e < n e - 1 then 0 else large e);
          dn = (iters e + 1 = max_iters e)
      in (Inr (st', rw, dn, Map.empty),
          e\<lparr>state := st', iters := (if dn then 0 else iters e + 1),
            np_random := snd (rand (np_random e))\<rparr>))"
  using step_valid [of e a rand "fst (rand (np_random e))" "snd (rand (np_random e))"] assms
  by (simp add: Let_def)

subsection \<open>The statements of the specification\<close>

text \<open>
  C1. A call \<open>step(a)\<close> with \<open>a\<close> in {0, 1} takes one draw \<open>u\<close> from the
  environment's generator, which is afterwards the generator \<open>g\<close> left by the draw.
  The action carried out is \<open>x = 1 - a\<close>, the other action, when \<open>u < slip\<close>, and
  \<open>x = a\<close> otherwise. If \<open>x\<close> is backward (1), the reward is \<open>small\<close> and the
  state becomes 0. If \<open>x\<close> is forward (0) and the state is below \<open>n - 1\<close>, the reward
  is 0 and the state grows by one. If \<open>x\<close> is forward and the state is \<open>n - 1\<close>, the
  reward is \<open>large\<close> and the state stays. The observation returned is the new state.
\<close>

theorem step_transition:
  assumes "action_space e = Discrete 2" and "a = 0 \<or> a = 1" and "rand (np_random e) = (u, g)"
  shows "\<exists>r d e'. step rand e a = (Inr (state e', r, d, Map.empty), e') \<and> np_random e' = g \<and>
     (let x = (if u < slip e then 1 - a else a) in
        (x = 1 \<longrightarrow> r = small e \<and> state e' = 0) \<and>
        (x = 0 \<and> state e < n e - 1 \<longrightarrow> r = 0 \<and> state e' = state e + 1) \<and>
        (x = 0 \<and> state e = n e - 1 \<longrightarrow> r = large e \<and> state e' = state e))"
proof -
  have v: "contains (action_space e) a" using assms(1,2) by auto
  show ?thesis
    using step_valid [of e a rand u g] v assms(2,3) by (auto simp: Let_def)
qed

text \<open>
  At the environment of \<open>NChainEnv(5, 0.2, 2, 10, 1000)\<close>, a generator that counts its
  draws from 7 and always draws 1/2: \<open>step(0)\<close> does not slip, gives reward 0 and moves
  to state 1, and the generator has advanced to 8.
\<close>

theorem step_transition_witness:
  "\<exists>r d e'. step (\<lambda>g::int. (1/2, g + 1)) (init (\<lambda>s. (s, s)) 7 5 (1/5) 2 10 1000) 0
             = (Inr (state e', r, d, Map.empty), e') \<and> np_random e' = 8 \<and> r = 0 \<and> state e' = 1"
  using step_transition [of "init (\<lambda>s. (s, s)) 7 5 (1/5) 2 10 1000" 0 "\<lambda>g::int. (1/2, g + 1)" "1/2" 8]
  by (simp add: init_def seeding_np_random_def Let_def)

text \<open>
  C3. A call \<open>step(a)\<close> with an integer \<open>a\<close> outside {0, 1} fails with the assertion's
  error (the spec's InvalidAction) before anything else happens: the environment after
  the call is the environment before it, so the state, the step counter and the
  generator are as they were.
\<close>

theorem step_invalid_action:
  assumes "action_space e = Discrete 2" and "a \<noteq> 0" and "a \<noteq> 1"
  shows "step rand e a = (Inl AssertionError, e)"
  using assms by (simp add: step_def)

theorem step_invalid_action_witness:
  "step (\<lambda>g::int. (1/2, g + 1)) (init (\<lambda>s. (s, s)) 7 5 (1/5) 2 10 1000) 2
     = (Inl AssertionError, init (\<lambda>s. (s, s)) 7 5 (1/5) 2 10 1000)"
  using step_invalid_action [of "init (\<lambda>s. (s, s)) 7 5 (1/5) 2 10 1000" 2 "\<lambda>g::int. (1/2, g + 1)"]
  by (simp add: init_def)

text \<open>
  C4. \<open>reset()\<close> returns 0 and leaves the environment with the state 0 and every other
  attribute as it was; in particular the step counter \<open>iters\<close> and the generator are
  untouched. \<open>seed\<close> does not change the counter either, and \<open>step\<close> sets it to 0
  only where the incremented counter equals \<open>max_iters\<close>: otherwise a valid call adds
  one to it and an invalid call leaves it.
\<close>

theorem reset_frame:
  "reset e = (0, e\<lparr>state := 0\<rparr>) \<and>
   iters (snd (reset e)) = iters e \<and> np_random (snd (reset e)) = np_random e \<and>
   iters (snd (seed mk entropy e sd)) = iters e \<and>
   iters (snd (step rand e a)) =
     (if contains (action_space e) a
      then (if iters e + 1 = max_iters e then 0 else iters e + 1)
      else iters e)"
proof -
  obtain u g where "rand (np_random e) = (u, g)" by (cases "rand (np_random e)")
  then have "iters (snd (step rand e a)) =
     (if contains (action_space e) a
      then (if iters e + 1 = max_iters e then 0 else iters e + 1)
      else iters e)"
    by (simp add: step_valid step_invalid Let_def)
  then show ?thesis by (simp add: reset_def seed_def Let_def split_beta)
qed

text \<open>
  C2. Let \<open>e\<close> be the environment after any sequence of calls on a newly constructed
  one, and \<open>a\<close> in {0, 1}. The call \<open>step(a)\<close> returns \<open>done = True\<close> exactly when the
  counter plus one equals \<open>max_iters\<close>, and then leaves the counter at 0; otherwise it
  leaves the counter one higher. When \<open>max_iters\<close> is at least 1, as the configuration
  requires, the counter is between 0 and \<open>max_iters - 1\<close> before and after the call, so
  it never reaches \<open>max_iters + 1\<close>.
\<close>

theorem step_counter:
  assumes "e = snd (run rand mk (init mk entropy len sl sm lg mx) cs)" and "a = 0 \<or> a = 1"
  shows "\<exists>ob r d e'. step rand e a = (Inr (ob, r, d, Map.empty), e') \<and>
           d = (iters e + 1 = mx) \<and> iters e' = (if d then 0 else iters e + 1) \<and>
           (1 \<le> mx \<longrightarrow> 0 \<le> iters e \<and> iters e < mx \<and> 0 \<le> iters e' \<and> iters e' < mx)"
proof -
  let ?e0 = "init mk entropy len sl sm lg mx :: 'a NChainEnv"
  have cfg: "action_space e = Discrete 2" "max_iters e = mx"
    using run_config [of rand mk ?e0 cs] assms(1) by (simp_all add: init_def)
  have v: "contains (action_space e) a" using cfg(1) assms(2) by auto
  obtain u g where ug: "rand (np_random e) = (u, g)" by (cases "rand (np_random e)")
  have b: "1 \<le> mx \<Longrightarrow> 0 \<le> iters e \<and> iters e < mx"
    using run_iters_bounds [of ?e0 rand mk cs] assms(1) by (simp add: init_def)
  show ?thesis
    using step_valid [of e a rand u g] v ug cfg(2) b by (auto simp: Let_def)
qed

text \<open>
  With \<open>max_iters = 2\<close>, the second \<open>step(0)\<close> after construction returns
  \<open>done = True\<close> and leaves the counter at 0.
\<close>

theorem step_counter_witness:
  "\<exists>ob r e'. step (\<lambda>g::int. (1/2, g + 1))
       (snd (run (\<lambda>g::int. (1/2, g + 1)) (\<lambda>s. (s, s)) (init (\<lambda>s. (s, s)) 7 5 (1/5) 2 10 2) [Step 0])) 0
     = (Inr (ob, r, True, Map.empty), e') \<and> iters e' = 0"
  using step_counter [of "snd (run (\<lambda>g::int. (1/2, g + 1)) (\<lambda>s. (s, s)) (init (\<lambda>s. (s, s)) 7 5 (1/5) 2 10 2) [Step 0])"
      "\<lambda>g::int. (1/2, g + 1)" "\<lambda>s. (s, s)" 7 5 "1/5" 2 10 2 "[Step 0]" 0]
  by (auto simp: init_def step_def Let_def seeding_np_random_def)

text \<open>
  C5. For a chain of length \<open>n\<close> at least 1, the state of the environment is at least
  0 and below \<open>n\<close> after construction and after any sequence of calls of \<open>step\<close>,
  \<open>reset\<close> and \<open>seed\<close>, whatever the generator draws.
\<close>

theorem state_bounds:
  assumes "1 \<le> len" and "e = snd (run rand mk (init mk entropy len sl sm lg mx) cs)"
  shows "0 \<le> state e \<and> state e < len \<and> n e = len"
proof -
  let ?e0 = "init mk entropy len sl sm lg mx :: 'a NChainEnv"
  have "0 \<le> state ?e0" "state ?e0 < n ?e0" "n ?e0 = len"
    using assms(1) by (simp_all add: init_def)
  then show ?thesis
    using run_state_bounds [of ?e0 rand mk cs] run_config [of rand mk ?e0 cs] assms(2) by simp
qed

text \<open>
  A chain of two states: after three times forward, a reset and once more forward, the
  state is 0 or 1.
\<close>

theorem state_bounds_witness:
  "state (snd (run (\<lambda>g::int. (1/2, g + 1)) (\<lambda>s. (s, s)) (init (\<lambda>s. (s, s)) 7 2 (1/5) 2 10 1000)
       [Step 0, Step 0, Step 0, Reset, Step 0])) \<in> {0, 1}"
  using state_bounds [of 2 _ "\<lambda>g::int. (1/2, g + 1)" "\<lambda>s. (s, s)" 7 "1/5" 2 10 1000
      "[Step 0, Step 0, Step 0, Reset, Step 0]", OF _ refl]
  by auto

text \<open>
  C6. The table built at construction and \<open>step\<close> agree. Take the environment in any
  state \<open>s\<close> from 0 to \<open>n - 1\<close> (with any counter and generator) and an action \<open>a\<close>
  in {0, 1}. For a draw whose law gives the event \<open>u < slip\<close> the probability \<open>slip\<close>
  and its complement \<open>1 - slip\<close>, as the uniform law on [0, 1) does for a slip
  probability in [0, 1], every pair of next state and reward has the same probability
  under \<open>step\<close> as under the two outcomes the table holds for \<open>s\<close> and \<open>a\<close>.
\<close>

theorem step_agrees_with_table:
  assumes "e = (init mk entropy len sl sm lg mx)\<lparr>state := s, iters := i, np_random := g\<rparr>"
    and "0 \<le> s" and "s < len" and "a = 0 \<or> a = 1"
    and "prob (\<lambda>u. u < sl) = sl" and "prob (\<lambda>u. \<not> u < sl) = 1 - sl"
    and "prob (\<lambda>u. True) = 1" and "prob (\<lambda>u. False) = 0"
  shows "\<exists>d outs. P e s = Some d \<and> d a = Some outs \<and>
           (\<forall>oc. step_mass prob e a oc = table_mass outs oc)"
proof -
  let ?fwd = "(if s < len - 1 then s + 1 else s, if s < len - 1 then 0 else lg)"
  let ?bwd = "(0::int, sm)"
  have cfg: "action_space e = Discrete 2" "slip e = sl" "small e = sm" "large e = lg"
    "n e = len" "state e = s" "P e = build_P len sl sm lg"
    using assms(1) by (simp_all add: init_def)
  have tab: "P e s = Some (build_d len sl sm lg s)"
    using cfg(7) assms(2,3) by (simp add: build_P_apply)
  have row: "build_d len sl sm lg s a = Some (transitions len sl sm lg s a)"
    using assms(4) by (auto simp: build_d_apply)
  have sm1: "step_outcome e a = (\<lambda>u. Some (if u < sl then (if a = 0 then ?bwd else ?fwd)
                                            else (if a = 0 then ?fwd else ?bwd)))"
    using step_outcome_eq [OF cfg(1) assms(4)] cfg by (auto simp: fun_eq_iff)
  have "step_mass prob e a oc = table_mass (transitions len sl sm lg s a) oc" for oc
  proof -
    have "step_mass prob e a oc =
        prob (\<lambda>u. (if u < sl then (if a = 0 then ?bwd else ?fwd)
                    else (if a = 0 then ?fwd else ?bwd)) = oc)"
      by (simp add: step_mass_def sm1)
    also have "\<dots> = (if (if a = 0 then ?fwd else ?bwd) = oc then 1 - sl else 0)
                   + (if (if a = 0 then ?bwd else ?fwd) = oc then sl else 0)"
      by (rule prob_two_valued [OF assms(5-8)])
    also have "\<dots> = table_mass (transitions len sl sm lg s a) oc"
      using assms(3) by (auto simp: table_mass_def transitions_eq)
    finally show ?thesis .
  qed
  with tab row show ?thesis by blast
qed

text \<open>
  The default environment in state 0, action forward, and a law that puts 1/5 on the
  draw 0 and 4/5 on the draw 1/2: the table gives (1, 0) the probability 4/5, (0, 2) the
  probability 1/5 and (0, 0) none.
\<close>

theorem step_agrees_with_table_witness:
  "\<exists>d outs. P (init (\<lambda>s. (s, s)) 7 5 (1/5) 2 10 1000) 0 = Some d \<and> d 0 = Some outs \<and>
       table_mass outs (1, 0) = 4/5 \<and> table_mass outs (0, 2) = 1/5 \<and> table_mass outs (0, 0) = 0"
proof -
  let ?e = "init (\<lambda>s. (s, s)) 7 5 (1/5) 2 10 1000 :: int NChainEnv"
  let ?prob = "\<lambda>E :: real \<Rightarrow> bool. (if E 0 then 1/5 else 0) + (if E (1/2) then 4/5 else (0::real))"
  have e: "?e = ?e\<lparr>state := 0, iters := 0, np_random := 7\<rparr>"
    by (simp add: init_def seeding_np_random_def)
  obtain d outs where d: "P ?e 0 = Some d" "d 0 = Some outs"
    and m: "\<And>oc. step_mass ?prob ?e 0 oc = table_mass outs oc"
    using step_agrees_with_table [where e = ?e and mk = "\<lambda>s. (s, s)" and entropy = 7 and len = 5
        and sl = "1/5" and sm = 2 and lg = 10 and mx = 1000 and s = 0 and i = 0 and g = 7
        and a = 0 and prob = ?prob, OF e]
    by auto
  have "step_mass ?prob ?e 0 (1, 0) = 4/5" "step_mass ?prob ?e 0 (0, 2) = 1/5"
    "step_mass ?prob ?e 0 (0, 0) = 0"
    by (simp_all add: step_mass_def step_outcome_def step_def init_def Let_def)
  with d m show ?thesis by auto
qed

text \<open>
  C7. For every state \<open>s\<close> from 0 to \<open>n - 1\<close> and every action \<open>a\<close> in {0, 1}, the
  table built at construction holds a list of exactly two outcomes; each is a tuple of
  probability, next state and reward (and a fourth component \<open>None\<close>); the first has
  probability \<open>1 - slip\<close> and the second \<open>slip\<close>, which sum to 1. For forward the
  first goes to \<open>min (s + 1) (n - 1)\<close> with reward \<open>large\<close> at the end of the chain and
  0 elsewhere, and the second to 0 with reward \<open>small\<close>; for backward the other way
  round.
\<close>

theorem table_outcomes:
  assumes "0 \<le> s" and "s < len" and "a = 0 \<or> a = 1"
  shows "\<exists>d outs. P (init mk entropy len sl sm lg mx) s = Some d \<and> d a = Some outs \<and>
           length outs = 2 \<and> sum_list (map fst outs) = 1 \<and>
           outs = (if a = 0
                   then [(1 - sl, min (s + 1) (len - 1), if s = len - 1 then lg else 0, None),
                         (sl, 0, sm, None)]
                   else [(1 - sl, 0, sm, None),
                         (sl, min (s + 1) (len - 1), if s = len - 1 then lg else 0, None)])"
proof -
  have tab: "P (init mk entropy len sl sm lg mx) s = Some (build_d len sl sm lg s)"
    using assms(1,2) by (simp add: init_def build_P_apply)
  have row: "build_d len sl sm lg s a = Some (transitions len sl sm lg s a)"
    using assms(3) by (auto simp: build_d_apply)
  have "min (s + 1) (len - 1) = (if s = len - 1 then s else s + 1)"
    using assms(2) by auto
  then have "transitions len sl sm lg s a =
       (if a = 0
        then [(1 - sl, min (s + 1) (len - 1), if s = len - 1 then lg else 0, None),
              (sl, 0, sm, None)]
        else [(1 - sl, 0, sm, None),
              (sl, min (s + 1) (len - 1), if s = len - 1 then lg else 0, None)])"
    by (simp add: transitions_eq)
  with tab row show ?thesis by auto
qed

text \<open>The default table at the last state, action backward.\<close>

theorem table_outcomes_witness:
  "\<exists>d. P (init (\<lambda>s. (s, s)) 7 5 (1/5) 2 10 1000) 4 = Some d \<and>
       d 1 = Some [(4/5, 0, 2, None), (1/5, 4, 10, None)]"
  using table_outcomes [where s = 4 and len = 5 and a = 1 and mk = "\<lambda>s. (s, s) :: int \<times> int"
      and entropy = 7 and sl = "1/5" and sm = 2 and lg = 10 and mx = 1000]
  by auto

text \<open>
  C8. An environment with \<open>n = 5\<close>, \<open>slip = 0\<close>, \<open>small = 2\<close>, \<open>large = 10\<close>,
  after any calls that leave the counter more than six steps below \<open>max_iters\<close>, and a
  generator whose draws are not negative (\<open>rand()\<close> draws from [0, 1)): \<open>reset()\<close>
  returns 0, and then \<open>step(0)\<close> five times and \<open>step(1)\<close> once return
  (1, 0, False, {}), (2, 0, False, {}), (3, 0, False, {}), (4, 0, False, {}),
  (4, 10, False, {}) and (0, 2, False, {}).
\<close>

theorem concrete_scenario:
  assumes "e = snd (run rand mk (init mk entropy 5 0 2 10 mx) cs)"
    and "iters e + 6 < mx" and "\<forall>g. 0 \<le> fst (rand g)"
  shows "fst (run rand mk e [Reset, Step 0, Step 0, Step 0, Step 0, Step 0, Step 1]) =
     [ResetOut 0,
      StepOut (Inr (1, 0, False, Map.empty)),
      StepOut (Inr (2, 0, False, Map.empty)),
      StepOut (Inr (3, 0, False, Map.empty)),
      StepOut (Inr (4, 0, False, Map.empty)),
      StepOut (Inr (4, 10, False, Map.empty)),
      StepOut (Inr (0, 2, False, Map.empty))]"
proof -
  let ?e0 = "init mk entropy 5 0 2 10 mx :: 'a NChainEnv"
  have cfg: "n e = 5" "slip e = 0" "small e = 2" "large e = 10" "max_iters e = mx"
    "action_space e = Discrete 2"
    using run_config [of rand mk ?e0 cs] assms(1) by (simp_all add: init_def)
  have pos: "0 \<le> fst (rand g)" for g using assms(3) by simp
  show ?thesis
    using cfg assms(2) by (simp add: reset_def step_noslip pos Let_def split_beta)
qed

text \<open>The scenario right after construction with \<open>max_iters = 1000\<close>.\<close>

theorem concrete_scenario_witness:
  "fst (run (\<lambda>g::int. (1/2, g + 1)) (\<lambda>s. (s, s)) (init (\<lambda>s. (s, s)) 7 5 0 2 10 1000)
        [Reset, Step 0, Step 0, Step 0, Step 0, Step 0, Step 1]) =
     [ResetOut 0,
      StepOut (Inr (1, 0, False, Map.empty)),
      StepOut (Inr (2, 0, False, Map.empty)),
      StepOut (Inr (3, 0, False, Map.empty)),
      StepOut (Inr (4, 0, False, Map.empty)),
      StepOut (Inr (4, 10, False, Map.empty)),
      StepOut (Inr (0, 2, False, Map.empty))]"
proof -
  have "init (\<lambda>s. (s, s)) 7 5 0 2 10 1000
      = snd (run (\<lambda>g::int. (1/2, g + 1)) (\<lambda>s. (s, s)) (init (\<lambda>s. (s, s)) 7 5 0 2 10 1000) [])"
    by simp
  moreover have "iters (init (\<lambda>s. (s, s)) 7 5 0 2 10 1000 :: int NChainEnv) + 6 < 1000"
    by (simp add: init_def)
  moreover have "\<forall>g::int. 0 \<le> fst ((\<lambda>g::int. (1/2 :: real, g + 1)) g)" by simp
  ultimately show ?thesis by (rule concrete_scenario)
qed

text \<open>
  C9. Two environments constructed with the same configuration (whatever the entropy
  source gave each of them) and then seeded with the same seed value are the same
  environment, and \<open>seed\<close> returns the same list to both; driven by the same actions,
  they return the same result from every call of \<open>step\<close>.
\<close>

theorem seeded_runs_agree:
  "seed mk en1 (init mk en1' len sl sm lg mx) (Some sd) =
     seed mk en2 (init mk en2' len sl sm lg mx) (Some sd) \<and>
   fst (run rand mk (snd (seed mk en1 (init mk en1' len sl sm lg mx) (Some sd))) (map Step acts)) =
   fst (run rand mk (snd (seed mk en2 (init mk en2' len sl sm lg mx) (Some sd))) (map Step acts))"
  by (simp add: seed_def init_def seeding_np_random_def split_beta)

text \<open>
  C10. The call of \<open>step\<close> that returns \<open>done = True\<close> (the counter plus one equals
  \<open>max_iters\<close>) moves the state as any other call does: to 0 when the action carried
  out is backward, one up when it is forward and the state is below \<open>n - 1\<close>, and
  nowhere otherwise. It is the state the same call leaves when \<open>max_iters\<close> is one
  higher and \<open>done\<close> is false. The next call of \<open>step\<close>, with action \<open>b\<close> and draw
  \<open>v\<close>, starts from that state.
\<close>

theorem done_keeps_state:
  assumes "action_space e = Discrete 2" and "a = 0 \<or> a = 1" and "rand (np_random e) = (u, g)"
    and "iters e + 1 = max_iters e"
    and "b = 0 \<or> b = 1" and "rand g = (v, h)"
  shows "\<exists>r e'. step rand e a = (Inr (state e', r, True, Map.empty), e') \<and>
     state e' = (if (if u < slip e then 1 - a else a) = 1 then 0
                 else if state e < n e - 1 then state e + 1 else state e) \<and>
     state e' = state (snd (step rand (e\<lparr>max_iters := max_iters e + 1\<rparr>) a)) \<and>
     state (snd (step rand e' b)) =
       (if (if v < slip e then 1 - b else b) = 1 then 0
        else if state e' < n e - 1 then state e' + 1 else state e')"
  using assms by (auto simp: step_def Let_def)

text \<open>
  With \<open>max_iters = 1\<close> the first \<open>step(0)\<close> returns \<open>done = True\<close> in state 1, and
  the next \<open>step(0)\<close> moves on to state 2.
\<close>

theorem done_keeps_state_witness:
  "\<exists>r e'. step (\<lambda>g::int. (1/2, g + 1)) (init (\<lambda>s. (s, s)) 7 5 (1/5) 2 10 1) 0
       = (Inr (state e', r, True, Map.empty), e') \<and> state e' = 1 \<and>
     state (snd (step (\<lambda>g::int. (1/2, g + 1)) e' 0)) = 2"
proof -
  let ?e = "init (\<lambda>s. (s, s)) 7 5 (1/5) 2 10 1 :: int NChainEnv"
  let ?rand = "\<lambda>g::int. (1/2 :: real, g + 1)"
  obtain r e' where s1: "step ?rand ?e 0 = (Inr (state e', r, True, Map.empty), e')"
    and s2: "state e' = (if (if 1/2 < slip ?e then 1 - 0 else 0) = (1::int) then 0
                 else if state ?e < n ?e - 1 then state ?e + 1 else state ?e)"
    and s3: "state (snd (step ?rand e' 0)) =
       (if (if 1/2 < slip ?e then 1 - 0 else 0) = (1::int) then 0
        else if state e' < n ?e - 1 then state e' + 1 else state e')"
    using done_keeps_state [where e = ?e and a = 0 and rand = ?rand and u = "1/2" and g = 8
        and b = 0 and v = "1/2" and h = 9]
    by (auto simp: init_def seeding_np_random_def)
  have "state e' = 1" using s2 by (simp add: init_def)
  moreover from this have "state (snd (step ?rand e' 0)) = 2" using s3 by (simp add: init_def)
  ultimately show ?thesis using s1 by blast
qed

end
